theory Spec2Isabelle
  imports Complex_Main
begin

section \<open>Data model\<close>

text \<open>
  The vector index \<open>DbIndex\<close> and the coordinator \<open>SqliteDb\<close> are TypeScript classes
  whose methods mutate the object and may throw. A method is modelled as a function from
  the state before the call to an outcome (\<open>None\<close> or \<open>Inr\<close> for a normal return,
  \<open>Some e\<close> or \<open>Inl e\<close> for a throw) together with the state after the call: a
  throw does not undo the assignments made before it.

  JavaScript numbers are modelled exactly: counters, labels and \<open>k\<close> are naturals, vector
  components and the resize factor are rationals. Ids are assumed not to be names of
  properties of \<open>Object.prototype\<close>, so that a lookup in the plain objects
  \<open>idToLabel\<close> and \<open>labelToId\<close> is a lookup in a finite map.
\<close>

type_synonym vec = "rat list"

datatype error =
    TypeError
  | DimensionMismatch
  | DuplicateId
  | IndexNotCreated
  | RequestedCountExceedsAvailable
  | HnswError
  | AlreadyExists
  | NotFound
  | OwnershipMismatch
  | NoSuchTable
  | SqlError
  | EmptyUpdate

record CollectionRowMetadata =
  numberOfDimensions :: nat
  maxElements :: "nat option"
  sizeOfDynamicListOfNearestNeighbors :: "nat option"
  indexResizeFactor :: "rat option"

record IndexConfig = CollectionRowMetadata +
  cfg_id :: string
  persistDirectory :: string

record IndexMetadata =
  dimensionality :: string
  elements :: nat
  timeCreated :: nat

record IndexData =
  data_id :: string
  embedding :: vec

record 'd IndexSearchResult =
  hit_id :: "string option"
  distance :: 'd
  hit_embedding :: vec

subsection \<open>The approximate-nearest-neighbour structure\<close>

text \<open>
  Modelled from the spec: the class \<open>HierarchicalNSW\<close> of the package hnswlib-node is
  not part of the repository. The spec describes it as a structure that, for a fixed
  dimensionality and a fixed metric, supports point insertion keyed by an integer label,
  mark-delete by label, capacity resize, a k-nearest-neighbour query with an optional
  label-membership predicate, and save and load of its full state. The model keeps the
  stored points in insertion order, the set of tombstoned labels and the capacity; the
  query is exact; the metric is a parameter \<open>distFn\<close> of the query.

  Where the spec is silent the model follows the interface of the package. A vector of
  the wrong length is rejected; inserting under a label that is already stored replaces
  the vector and clears the tombstone of that label; inserting a new label fails when the
  capacity is exhausted; a resize below the number of stored points fails; mark-delete
  fails for an argument that is not a number, for a label that is not stored and for a
  label that is already tombstoned; a query fails when \<open>k\<close> is 0 or above the capacity,
  and returns fewer than \<open>k\<close> neighbours when fewer candidates exist. Numeric arguments
  are read as unsigned 32-bit integers (\<open>toUint32\<close>, \<open>mod 2 ^ 32\<close>).
\<close>

record HierarchicalNSW =
  hnsw_dim :: nat
  hnsw_capacity :: nat
  hnsw_ef :: nat
  hnsw_points :: "(nat \<times> vec) list"
  hnsw_deleted :: "nat set"

definition toUint32 :: "rat \<Rightarrow> nat" where
  "toUint32 x = nat ((if x < 0 then \<lceil>x\<rceil> else \<lfloor>x\<rfloor>) mod 2 ^ 32)"

definition hnsw_new :: "nat \<Rightarrow> nat \<Rightarrow> HierarchicalNSW" where
  "hnsw_new d cap =
     \<lparr>hnsw_dim = d, hnsw_capacity = cap, hnsw_ef = 10, hnsw_points = [], hnsw_deleted = {}\<rparr>"

definition setEf :: "nat \<Rightarrow> HierarchicalNSW \<Rightarrow> HierarchicalNSW" where
  "setEf n h = h\<lparr>hnsw_ef := n\<rparr>"

definition getNumDimensions :: "HierarchicalNSW \<Rightarrow> nat" where
  "getNumDimensions h = hnsw_dim h"

definition getCurrentCount :: "HierarchicalNSW \<Rightarrow> nat" where
  "getCurrentCount h = length (hnsw_points h)"

definition resizeIndex :: "rat \<Rightarrow> HierarchicalNSW \<Rightarrow> error + HierarchicalNSW" where
  "resizeIndex newSize h =
     (if toUint32 newSize < getCurrentCount h then Inl HnswError
      else Inr (h\<lparr>hnsw_capacity := toUint32 newSize\<rparr>))"

definition addPoint :: "vec \<Rightarrow> nat \<Rightarrow> HierarchicalNSW \<Rightarrow> error + HierarchicalNSW" where
  "addPoint v l h =
     (if length v \<noteq> hnsw_dim h then Inl HnswError
      else if l \<in> fst ` set (hnsw_points h)
      then Inr (h\<lparr>hnsw_points := map (\<lambda>p. if fst p = l then (l, v) else p) (hnsw_points h),
                  hnsw_deleted := hnsw_deleted h - {l}\<rparr>)
      else if hnsw_capacity h \<le> getCurrentCount h then Inl HnswError
      else Inr (h\<lparr>hnsw_points := hnsw_points h @ [(l, v)]\<rparr>))"

definition markDelete :: "nat option \<Rightarrow> HierarchicalNSW \<Rightarrow> error + HierarchicalNSW" where
  "markDelete label h =
     (case label of
        None \<Rightarrow> Inl TypeError
      | Some l \<Rightarrow>
          if l \<notin> fst ` set (hnsw_points h) then Inl HnswError
          else if l \<in> hnsw_deleted h then Inl HnswError
          else Inr (h\<lparr>hnsw_deleted := insert l (hnsw_deleted h)\<rparr>))"

definition getPoint :: "nat \<Rightarrow> HierarchicalNSW \<Rightarrow> error + vec" where
  "getPoint l h = (case map_of (hnsw_points h) l of None \<Rightarrow> Inl HnswError | Some v \<Rightarrow> Inr v)"

definition candidates :: "(nat \<Rightarrow> bool) option \<Rightarrow> HierarchicalNSW \<Rightarrow> (nat \<times> vec) list" where
  "candidates filterFn h =
     filter (\<lambda>p. fst p \<notin> hnsw_deleted h \<and> (case filterFn of None \<Rightarrow> True | Some f \<Rightarrow> f (fst p)))
       (hnsw_points h)"

definition searchKnn ::
  "(vec \<Rightarrow> vec \<Rightarrow> 'd::linorder) \<Rightarrow> vec \<Rightarrow> nat \<Rightarrow> (nat \<Rightarrow> bool) option \<Rightarrow> HierarchicalNSW
     \<Rightarrow> error + ('d \<times> nat) list" where
  "searchKnn distFn query k filterFn h =
     (if length query \<noteq> hnsw_dim h then Inl HnswError
      else if hnsw_capacity h < k mod 2 ^ 32 then Inl HnswError
      else if k mod 2 ^ 32 = 0 then Inl HnswError
      else Inr (take (k mod 2 ^ 32)
                  (sort_key fst (map (\<lambda>p. (distFn query (snd p), fst p)) (candidates filterFn h)))))"

subsection \<open>The file system and the clock\<close>

record World =
  files :: "string \<rightharpoonup> HierarchicalNSW"
  dirs :: "string set"
  now :: nat

section \<open>The vector index: class DbIndex\<close>

record DbIndex =
  indexConfig :: IndexConfig
  index :: "HierarchicalNSW option"
  indexMetadata :: "IndexMetadata option"
  saveFolder :: "string option"
  idToLabel :: "string \<rightharpoonup> nat"
  labelToId :: "nat \<rightharpoonup> string"

definition DEFAULT_MAX_ELEMENTS_IN_INDEX :: nat where
  "DEFAULT_MAX_ELEMENTS_IN_INDEX = 1000"

definition DEFAULT_SIZE_OF_DYNAMIC_LIST_OF_NEAREST_NEIGHBORS :: nat where
  "DEFAULT_SIZE_OF_DYNAMIC_LIST_OF_NEAREST_NEIGHBORS = 10"

text \<open>
  The validator compiled from \<open>IndexConfigSchema\<close> fills in the default of
  \<open>indexResizeFactor\<close>; its verdict is discarded by the constructor, so no configuration
  is rejected.
\<close>

definition validateIndexConfig :: "IndexConfig \<Rightarrow> IndexConfig" where
  "validateIndexConfig c =
     (case indexResizeFactor c of None \<Rightarrow> c\<lparr>indexResizeFactor := Some 1\<rparr> | Some _ \<Rightarrow> c)"

definition resizeFactor :: "DbIndex \<Rightarrow> rat option" where
  "resizeFactor s = indexResizeFactor (indexConfig s)"

definition efOf :: "DbIndex \<Rightarrow> nat" where
  "efOf s = (case sizeOfDynamicListOfNearestNeighbors (indexConfig s) of
               None \<Rightarrow> DEFAULT_SIZE_OF_DYNAMIC_LIST_OF_NEAREST_NEIGHBORS | Some n \<Rightarrow> n)"

text \<open>
  The template literal \<open>`${this._saveFolder}/index_${this.indexConfig.id}.bin`\<close>: a
  folder that was never assigned prints as \<open>undefined\<close>.
\<close>

definition indexSavePath :: "DbIndex \<Rightarrow> string" where
  "indexSavePath s =
     (case saveFolder s of None \<Rightarrow> ''undefined'' | Some f \<Rightarrow> f)
       @ ''/index_'' @ cfg_id (indexConfig s) @ ''.bin''"

text \<open>
  \<open>save\<close> creates the folder when it does not exist, and writes the snapshot when there is
  an index. For a folder that was never assigned, \<open>existsSync(undefined)\<close> is false and
  \<open>mkdirSync(undefined)\<close> throws.
\<close>

definition save :: "DbIndex \<Rightarrow> World \<Rightarrow> error option \<times> DbIndex \<times> World" where
  "save s w =
     (case saveFolder s of
        None \<Rightarrow> (Some TypeError, s, w)
      | Some folder \<Rightarrow>
          let w1 = (if folder \<in> dirs w then w else w\<lparr>dirs := insert folder (dirs w)\<rparr>)
          in (case index s of
                None \<Rightarrow> (None, s, w1)
              | Some h \<Rightarrow> (None, s, w1\<lparr>files := (files w1)(indexSavePath s \<mapsto> h)\<rparr>)))"

text \<open>
  \<open>load\<close> reads the snapshot into a new structure of the configured dimensionality; it
  restores neither \<open>_indexMetadata\<close> nor the two maps. The constructor calls it after
  setting all fields but \<open>_saveFolder\<close>.
\<close>

definition load :: "DbIndex \<Rightarrow> World \<Rightarrow> DbIndex" where
  "load s w =
     (case files w (indexSavePath s) of
        None \<Rightarrow> s
      | Some snapshot \<Rightarrow>
          s\<lparr>index := Some (setEf (efOf s)
                 (snapshot\<lparr>hnsw_dim := numberOfDimensions (indexConfig s)\<rparr>))\<rparr>)"

definition newDbIndex :: "IndexConfig \<Rightarrow> World \<Rightarrow> DbIndex" where
  "newDbIndex c w =
     load \<lparr>indexConfig = validateIndexConfig c, index = None, indexMetadata = None,
           saveFolder = None, idToLabel = Map.empty, labelToId = Map.empty\<rparr> w"

definition initIndex :: "DbIndex \<Rightarrow> World \<Rightarrow> error option \<times> DbIndex \<times> World" where
  "initIndex s w =
     save (s\<lparr>index := Some (setEf (efOf s)
                (hnsw_new (numberOfDimensions (indexConfig s))
                   (case maxElements (indexConfig s) of
                      None \<Rightarrow> DEFAULT_MAX_ELEMENTS_IN_INDEX | Some n \<Rightarrow> n))),
             indexMetadata := Some \<lparr>dimensionality = ''cosine'', elements = 0,
                                     timeCreated = now w\<rparr>,
             saveFolder := Some (persistDirectory (indexConfig s) @ ''/index'')\<rparr>) w"

text \<open>The first loop of \<open>add\<close>: the test \<open>if (this.idToLabel[id])\<close> is on truthiness.\<close>

definition truthy :: "nat option \<Rightarrow> bool" where
  "truthy x = (case x of None \<Rightarrow> False | Some l \<Rightarrow> l \<noteq> 0)"

primrec assignLabels :: "IndexData list \<Rightarrow> bool \<Rightarrow> DbIndex \<Rightarrow> error option \<times> DbIndex" where
  "assignLabels [] update s = (None, s)"
| "assignLabels (d # ds) update s =
     (if truthy (idToLabel s (data_id d))
      then (if update then assignLabels ds update s else (Some DuplicateId, s))
      else (case indexMetadata s of
              None \<Rightarrow> (Some TypeError, s)
            | Some m \<Rightarrow>
                let nextLabel = elements m + 1
                in assignLabels ds update
                     (s\<lparr>indexMetadata := Some (m\<lparr>elements := nextLabel\<rparr>),
                        idToLabel := (idToLabel s)(data_id d \<mapsto> nextLabel),
                        labelToId := (labelToId s)(nextLabel \<mapsto> data_id d)\<rparr>)))"

text \<open>
  The target of a resize, \<open>Math.max(elements * indexResizeFactor, 1000)\<close>. A factor
  that is \<open>undefined\<close> makes the product and the maximum \<open>NaN\<close>, which the binding
  reads as \<open>0\<close>.
\<close>

definition newSize :: "DbIndex \<Rightarrow> IndexMetadata \<Rightarrow> rat" where
  "newSize s m =
     (case resizeFactor s of
        None \<Rightarrow> 0
      | Some factor \<Rightarrow> max (of_nat (elements m) * factor) (of_nat DEFAULT_MAX_ELEMENTS_IN_INDEX))"

definition growIndex :: "DbIndex \<Rightarrow> error option \<times> DbIndex" where
  "growIndex s =
     (case (indexMetadata s, index s) of
        (Some m, Some h) \<Rightarrow>
          if getCurrentCount h < elements m
          then (case resizeIndex (newSize s m) h of
                  Inl e \<Rightarrow> (Some e, s)
                | Inr h' \<Rightarrow> (None, s\<lparr>index := Some h'\<rparr>))
          else (None, s)
      | _ \<Rightarrow> (Some TypeError, s))"

primrec insertPoints :: "IndexData list \<Rightarrow> DbIndex \<Rightarrow> error option \<times> DbIndex" where
  "insertPoints [] s = (None, s)"
| "insertPoints (d # ds) s =
     (case (index s, idToLabel s (data_id d)) of
        (Some h, Some l) \<Rightarrow>
          (case addPoint (embedding d) l h of
             Inl e \<Rightarrow> (Some e, s)
           | Inr h' \<Rightarrow> insertPoints ds (s\<lparr>index := Some h'\<rparr>))
      | _ \<Rightarrow> (Some TypeError, s))"

definition add :: "IndexData list \<Rightarrow> bool \<Rightarrow> DbIndex \<Rightarrow> World \<Rightarrow> error option \<times> DbIndex \<times> World" where
  "add indexData update s w =
     (case indexData of
        [] \<Rightarrow> (Some TypeError, s, w)
      | d0 # _ \<Rightarrow>
          (case (if index s = None then initIndex s w else (None, s, w)) of
             (Some e, s1, w1) \<Rightarrow> (Some e, s1, w1)
           | (None, s1, w1) \<Rightarrow>
               (case index s1 of
                  None \<Rightarrow> (Some TypeError, s1, w1)
                | Some h \<Rightarrow>
                    if length (embedding d0) \<noteq> getNumDimensions h
                    then (Some DimensionMismatch, s1, w1)
                    else (case assignLabels indexData update s1 of
                            (Some e, s2) \<Rightarrow> (Some e, s2, w1)
                          | (None, s2) \<Rightarrow>
                              (case growIndex s2 of
                                 (Some e, s3) \<Rightarrow> (Some e, s3, w1)
                               | (None, s3) \<Rightarrow>
                                   (case insertPoints indexData s3 of
                                      (Some e, s4) \<Rightarrow> (Some e, s4, w1)
                                    | (None, s4) \<Rightarrow> save s4 w1))))))"

primrec deleteLoop :: "string list \<Rightarrow> DbIndex \<Rightarrow> error option \<times> DbIndex" where
  "deleteLoop [] s = (None, s)"
| "deleteLoop (i # ids) s =
     (case index s of
        None \<Rightarrow> (Some TypeError, s)
      | Some h \<Rightarrow>
          (case markDelete (idToLabel s i) h of
             Inl e \<Rightarrow> (Some e, s)
           | Inr h' \<Rightarrow>
               deleteLoop ids
                 (s\<lparr>index := Some h',
                    labelToId := (case idToLabel s i of
                                    None \<Rightarrow> labelToId s
                                  | Some l \<Rightarrow> (labelToId s)(l := None)),
                    idToLabel := (idToLabel s)(i := None)\<rparr>)))"

definition delete :: "string list \<Rightarrow> DbIndex \<Rightarrow> World \<Rightarrow> error option \<times> DbIndex \<times> World" where
  "delete ids s w =
     (case deleteLoop ids s of
        (Some e, s') \<Rightarrow> (Some e, s', w)
      | (None, s') \<Rightarrow> save s' w)"

primrec mkHits ::
  "DbIndex \<Rightarrow> HierarchicalNSW \<Rightarrow> ('d \<times> nat) list \<Rightarrow> error + 'd IndexSearchResult list" where
  "mkHits s h [] = Inr []"
| "mkHits s h (r # rs) =
     (case getPoint (snd r) h of
        Inl e \<Rightarrow> Inl e
      | Inr v \<Rightarrow>
          (case mkHits s h rs of
             Inl e \<Rightarrow> Inl e
           | Inr hits \<Rightarrow>
               Inr (\<lparr>hit_id = labelToId s (snd r), distance = fst r, hit_embedding = v\<rparr> # hits)))"

definition filterLabels :: "DbIndex \<Rightarrow> string list \<Rightarrow> nat option list" where
  "filterLabels s ids = remdups (map (idToLabel s) ids)"

definition search ::
  "(vec \<Rightarrow> vec \<Rightarrow> 'd::linorder) \<Rightarrow> DbIndex \<Rightarrow> vec \<Rightarrow> nat \<Rightarrow> string list
     \<Rightarrow> error + 'd IndexSearchResult list" where
  "search distFn s query k ids =
     (case index s of
        None \<Rightarrow> Inl IndexNotCreated
      | Some h \<Rightarrow>
          if length query \<noteq> getNumDimensions h then Inl DimensionMismatch
          else (case indexMetadata s of
                  None \<Rightarrow> Inl TypeError
                | Some m \<Rightarrow>
                    if elements m < k then Inl RequestedCountExceedsAvailable
                    else
                      let labels = (if ids \<noteq> [] then filterLabels s ids else []);
                          k' = (if ids \<noteq> [] \<and> length labels < k then length labels else k);
                          filterFn = (if labels \<noteq> [] then Some (\<lambda>lbl. Some lbl \<in> set labels)
                                      else None)
                      in (case searchKnn distFn query k' filterFn h of
                            Inl e \<Rightarrow> Inl e
                          | Inr res \<Rightarrow>
                              (case mkHits s h res of
                                 Inl e \<Rightarrow> Inl e
                               | Inr hits \<Rightarrow> Inr (sort_key distance hits)))))"

subsection \<open>Sequences of operations and the state they maintain\<close>

datatype op = Add "IndexData list" bool | Delete "string list"

fun step :: "op \<Rightarrow> DbIndex \<times> World \<Rightarrow> DbIndex \<times> World" where
  "step (Add indexData update) (s, w) = snd (add indexData update s w)"
| "step (Delete ids) (s, w) = snd (delete ids s w)"

definition run :: "op list \<Rightarrow> DbIndex \<times> World \<Rightarrow> DbIndex \<times> World" where
  "run ops sw = fold step ops sw"

text \<open>The cumulative counter \<open>_indexMetadata.elements\<close>, read as 0 before initialisation.\<close>

definition counter :: "DbIndex \<Rightarrow> nat" where
  "counter s = (case indexMetadata s of None \<Rightarrow> 0 | Some m \<Rightarrow> elements m)"

definition tombstones :: "DbIndex \<Rightarrow> nat set" where
  "tombstones s = (case index s of None \<Rightarrow> {} | Some h \<Rightarrow> hnsw_deleted h)"

text \<open>
  The invariant of the index: the two maps are inverse to each other, every live label
  lies between 1 and the counter and is not tombstoned, the tombstones lie below the
  counter, and an index that does not exist yet has neither labels nor metadata.
\<close>

definition consistent :: "DbIndex \<Rightarrow> bool" where
  "consistent s \<longleftrightarrow>
     (\<forall>i l. idToLabel s i = Some l \<longleftrightarrow> labelToId s l = Some i) \<and>
     (\<forall>i l. idToLabel s i = Some l \<longrightarrow> 1 \<le> l \<and> l \<le> counter s \<and> l \<notin> tombstones s) \<and>
     (indexMetadata s \<noteq> None \<longrightarrow> tombstones s \<subseteq> {..counter s}) \<and>
     (index s = None \<longrightarrow> idToLabel s = Map.empty \<and> indexMetadata s = None)"

section \<open>The coordinator: class SqliteDb\<close>

text \<open>
  Modelled from the spec: the relational store behind the query builder is not part of the
  repository. The spec gives its tables, \<open>collections(id PK, name UNIQUE, metadata)\<close> and
  \<open>embeddings(id PK, collectionId, embedding, document, documentId, arg1, arg2, arg3)\<close>. A
  table that exists is the list of its rows, a table that does not exist is \<open>None\<close>, and
  a statement on a table that does not exist fails; \<open>.where(column, value).first()\<close> is
  the first row with that value; an update sets the columns whose value is not
  \<open>undefined\<close> in every row its \<open>where\<close> clauses select, and fails when there is no
  column to set. The stringified metadata of a collection row is modelled by the metadata
  itself, and the two text renderings of a vector (\<open>embedding.toString()\<close> on insert,
  \<open>JSON.stringify(embedding)\<close> on update) by two constructors. The declarations of the
  types \<open>EmbeddingRow\<close> and \<open>EmbeddingInput\<close> are not available: their fields are the
  ones the code reads, each optional unless the table requires it.
\<close>

datatype EmbeddingText = ToStringText vec | JsonText vec

record CollectionRow =
  col_id :: string
  col_name :: string
  col_metadata :: CollectionRowMetadata

record EmbeddingRow =
  row_id :: string
  collectionId :: string
  row_embedding :: EmbeddingText
  document :: "string option"
  documentId :: "string option"
  arg1 :: "string option"
  arg2 :: "string option"
  arg3 :: "string option"


text \<open>The content of the database file that the constructor opens.\<close>

record Database =
  collectionsTable :: "CollectionRow list option"
  embeddingsTable :: "EmbeddingRow list option"

text \<open>
  The field \<open>_indexCache\<close> is declared without an initialiser and neither the constructor
  nor any method assigns it: it is \<open>None\<close> (\<open>undefined\<close>) in a new \<open>SqliteDb\<close>.
\<close>

record SqliteDb =
  dbPersistDirectory :: string
  collections :: "CollectionRow list option"
  embeddings :: "EmbeddingRow list option"
  indexCache :: "(string \<rightharpoonup> DbIndex) option"

text \<open>
  The \<open>CREATE TABLE IF NOT EXISTS\<close> statement for \<open>collections\<close> ends its column list with
  a comma before the closing parenthesis: the store rejects it, so the statement creates
  nothing and the table stays as the database file has it. The statement for
  \<open>embeddings\<close> is well formed and creates the table when it is missing.
\<close>

definition setupCollectionsTable :: "CollectionRow list option \<Rightarrow> CollectionRow list option" where
  "setupCollectionsTable t = t"

definition setupEmbeddingsTable :: "EmbeddingRow list option \<Rightarrow> EmbeddingRow list option" where
  "setupEmbeddingsTable t = (case t of None \<Rightarrow> Some [] | Some rows \<Rightarrow> Some rows)"

definition newSqliteDb :: "string \<Rightarrow> Database \<Rightarrow> SqliteDb" where
  "newSqliteDb dir stored =
     \<lparr>dbPersistDirectory = dir,
      collections = setupCollectionsTable (collectionsTable stored),
      embeddings = setupEmbeddingsTable (embeddingsTable stored),
      indexCache = None\<rparr>"

definition whereFirst :: "('r \<Rightarrow> bool) \<Rightarrow> 'r list option \<Rightarrow> error + 'r option" where
  "whereFirst sel t = (case t of None \<Rightarrow> Inl NoSuchTable | Some rows \<Rightarrow> Inr (find sel rows))"

definition getCollectionById :: "SqliteDb \<Rightarrow> string \<Rightarrow> error + CollectionRow option" where
  "getCollectionById db collectionId' = whereFirst (\<lambda>r. col_id r = collectionId') (collections db)"

text \<open>The query of \<open>getCollectionByName\<close> is \<open>.where("id", collectionName)\<close>.\<close>

definition getCollectionByName :: "SqliteDb \<Rightarrow> string \<Rightarrow> error + CollectionRow option" where
  "getCollectionByName db name = whereFirst (\<lambda>r. col_id r = name) (collections db)"

definition getEmbeddingById :: "SqliteDb \<Rightarrow> string \<Rightarrow> error + EmbeddingRow option" where
  "getEmbeddingById db embeddingId = whereFirst (\<lambda>r. row_id r = embeddingId) (embeddings db)"

text \<open>
  The insert of \<open>createCollection\<close> is built on the imported factory \<open>knex\<close>, not on the
  connection \<open>this._knex\<close>. Such a statement does not reach the tables of the connection:
  it fails, and no row is stored.
\<close>

definition insertOnFactory :: "CollectionRow \<Rightarrow> error + unit" where
  "insertOnFactory row = Inl SqlError"

definition createIndexForCollection ::
  "string \<Rightarrow> SqliteDb \<Rightarrow> World \<Rightarrow> (error + DbIndex) \<times> SqliteDb" where
  "createIndexForCollection collectionId' db w =
     (case indexCache db of
        None \<Rightarrow> (Inl TypeError, db)
      | Some cache \<Rightarrow>
          (case cache collectionId' of
             Some idx \<Rightarrow> (Inr idx, db)
           | None \<Rightarrow>
               (case getCollectionById db collectionId' of
                  Inl e \<Rightarrow> (Inl e, db)
                | Inr None \<Rightarrow> (Inl NotFound, db)
                | Inr (Some collectionRow) \<Rightarrow>
                    let decodedMetadata = col_metadata collectionRow;
                        idx = newDbIndex
                                \<lparr>numberOfDimensions = numberOfDimensions decodedMetadata,
                                 maxElements = maxElements decodedMetadata,
                                 sizeOfDynamicListOfNearestNeighbors =
                                   sizeOfDynamicListOfNearestNeighbors decodedMetadata,
                                 indexResizeFactor = indexResizeFactor decodedMetadata,
                                 cfg_id = collectionId',
                                 persistDirectory = dbPersistDirectory db\<rparr> w
                    in (Inr idx, db\<lparr>indexCache := Some (cache(collectionId' \<mapsto> idx))\<rparr>))))"

text \<open>The id that \<open>shortUUID.generate()\<close> returns is the argument \<open>freshId\<close>.\<close>

definition createCollection ::
  "string \<Rightarrow> CollectionRowMetadata \<Rightarrow> bool \<Rightarrow> string \<Rightarrow> SqliteDb \<Rightarrow> World
     \<Rightarrow> (error + CollectionRow) \<times> SqliteDb" where
  "createCollection name metadata getOrCreate freshId db w =
     (case getCollectionByName db name of
        Inl e \<Rightarrow> (Inl e, db)
      | Inr (Some existingCollection) \<Rightarrow>
          if getOrCreate then (Inr existingCollection, db) else (Inl AlreadyExists, db)
      | Inr None \<Rightarrow>
          let dataToInsert = \<lparr>col_id = freshId, col_name = name, col_metadata = metadata\<rparr>
          in (case insertOnFactory dataToInsert of
                Inl e \<Rightarrow> (Inl e, db)
              | Inr _ \<Rightarrow>
                  (case createIndexForCollection freshId db w of
                     (Inl e, db2) \<Rightarrow> (Inl e, db2)
                   | (Inr _, db2) \<Rightarrow> (Inr dataToInsert, db2))))"





section \<open>The scenario of the testable properties\<close>

text \<open>
  Collection \<open>docs\<close> of dimensionality 3 with the unit vectors \<open>a\<close>, \<open>b\<close>, \<open>c\<close>. The
  distance used in the closed examples is one minus the inner product, which orders
  unit vectors as the cosine distance does.
\<close>

definition docsMetadata :: CollectionRowMetadata where
  "docsMetadata =
     \<lparr>numberOfDimensions = 3, maxElements = None, sizeOfDynamicListOfNearestNeighbors = None,
      indexResizeFactor = None\<rparr>"

definition docsConfig :: IndexConfig where
  "docsConfig =
     \<lparr>numberOfDimensions = 3, maxElements = None, sizeOfDynamicListOfNearestNeighbors = None,
      indexResizeFactor = None, cfg_id = ''docs'', persistDirectory = ''data''\<rparr>"

definition emptyWorld :: World where
  "emptyWorld = \<lparr>files = Map.empty, dirs = {}, now = 0\<rparr>"

definition recA :: IndexData where
  "recA = \<lparr>data_id = ''a'', embedding = [1, 0, 0]\<rparr>"

definition recB :: IndexData where
  "recB = \<lparr>data_id = ''b'', embedding = [0, 1, 0]\<rparr>"

definition recC :: IndexData where
  "recC = \<lparr>data_id = ''c'', embedding = [0, 0, 1]\<rparr>"

definition innerDistance :: "vec \<Rightarrow> vec \<Rightarrow> rat" where
  "innerDistance x y = 1 - sum_list (map2 (*) x y)"

definition query0 :: vec where
  "query0 = [9 / 10, 1 / 10, 0]"

text \<open>The state of the index and of the file system after inserting \<open>a\<close>, \<open>b\<close>, \<open>c\<close>.\<close>

definition scenarioHnsw :: HierarchicalNSW where
  "scenarioHnsw =
     \<lparr>hnsw_dim = 3, hnsw_capacity = 1000, hnsw_ef = 10,
      hnsw_points = [(1, [1, 0, 0]), (2, [0, 1, 0]), (3, [0, 0, 1])],
      hnsw_deleted = {}\<rparr>"

definition scenarioIndex :: DbIndex where
  "scenarioIndex =
     \<lparr>indexConfig = docsConfig\<lparr>indexResizeFactor := Some 1\<rparr>,
      index = Some scenarioHnsw,
      indexMetadata = Some \<lparr>dimensionality = ''cosine'', elements = 3, timeCreated = 0\<rparr>,
      saveFolder = Some ''data/index'',
      idToLabel = [''a'' \<mapsto> 1, ''b'' \<mapsto> 2, ''c'' \<mapsto> 3],
      labelToId = [1 \<mapsto> ''a'', 2 \<mapsto> ''b'', 3 \<mapsto> ''c'']\<rparr>"

definition scenarioWorld :: World where
  "scenarioWorld =
     \<lparr>files = [''data/index/index_docs.bin'' \<mapsto> scenarioHnsw],
      dirs = {''data/index''}, now = 0\<rparr>"

text \<open>The same after \<open>delete(["a"])\<close>.\<close>

definition scenarioDeleted :: DbIndex where
  "scenarioDeleted =
     scenarioIndex\<lparr>index := Some (scenarioHnsw\<lparr>hnsw_deleted := {1}\<rparr>),
                   labelToId := [2 \<mapsto> ''b'', 3 \<mapsto> ''c''],
                   idToLabel := [''b'' \<mapsto> 2, ''c'' \<mapsto> 3]\<rparr>"

definition scenarioDeletedWorld :: World where
  "scenarioDeletedWorld =
     scenarioWorld\<lparr>files := [''data/index/index_docs.bin'' \<mapsto>
                               scenarioHnsw\<lparr>hnsw_deleted := {1}\<rparr>]\<rparr>"

text \<open>
  The number of live elements, in the spec's words the elements that are not deleted: the
  stored points that are not tombstoned.
\<close>

definition liveCount :: "DbIndex \<Rightarrow> nat" where
  "liveCount s = (case index s of None \<Rightarrow> 0 | Some h \<Rightarrow> length (candidates None h))"

text \<open>
  Further inputs: a fourth record, a record whose vector is too short, a configuration
  with a capacity of five, and one with a resize factor of one half together with a batch
  of 1001 records with pairwise different ids.
\<close>

definition recD :: IndexData where
  "recD = \<lparr>data_id = ''d'', embedding = [1, 1, 0]\<rparr>"

definition recShort :: IndexData where
  "recShort = \<lparr>data_id = ''e'', embedding = [1, 0]\<rparr>"







text \<open>
  A database file without tables, the \<open>SqliteDb\<close> constructed over it, and an update of
  the document and the vector of the embedding \<open>a\<close>.
\<close>

definition freshDatabase :: Database where
  "freshDatabase = \<lparr>collectionsTable = None, embeddingsTable = None\<rparr>"

definition freshDb :: SqliteDb where
  "freshDb = newSqliteDb ''data'' freshDatabase"


text \<open>The scenario after \<open>a\<close> is inserted again: it has the new label 4.\<close>

definition scenarioReinserted :: DbIndex where
  "scenarioReinserted =
     scenarioIndex\<lparr>index := Some (scenarioHnsw\<lparr>hnsw_points :=
                                      [(1, [1, 0, 0]), (2, [0, 1, 0]), (3, [0, 0, 1]), (4, [1, 0, 0])],
                                    hnsw_deleted := {1}\<rparr>),
                   indexMetadata := Some \<lparr>dimensionality = ''cosine'', elements = 4,
                                           timeCreated = 0\<rparr>,
                   labelToId := [2 \<mapsto> ''b'', 3 \<mapsto> ''c'', 4 \<mapsto> ''a''],
                   idToLabel := [''b'' \<mapsto> 2, ''c'' \<mapsto> 3, ''a'' \<mapsto> 4]\<rparr>"

definition scenarioReinsertedWorld :: World where
  "scenarioReinsertedWorld =
     scenarioWorld\<lparr>files := [''data/index/index_docs.bin'' \<mapsto>
        scenarioHnsw\<lparr>hnsw_points :=
                       [(1, [1, 0, 0]), (2, [0, 1, 0]), (3, [0, 0, 1]), (4, [1, 0, 0])],
                     hnsw_deleted := {1}\<rparr>]\<rparr>"




section \<open>Properties of the vector index\<close>

subsection \<open>The maps, the counter and the tombstones stay consistent\<close>

lemma save_state: "save s w = (e, s', w') \<Longrightarrow> s' = s"
  by (auto simp: save_def Let_def split: option.splits if_splits)

lemma consistent_cong:
  "idToLabel s' = idToLabel s \<Longrightarrow> labelToId s' = labelToId s \<Longrightarrow> indexMetadata s' = indexMetadata s
   \<Longrightarrow> tombstones s' = tombstones s \<Longrightarrow> (index s' = None \<longleftrightarrow> index s = None) \<Longrightarrow> consistent s' = consistent s"
  by (simp add: consistent_def counter_def)

lemma consistent_newDbIndex: "consistent (newDbIndex c w)"
  by (simp add: newDbIndex_def load_def consistent_def counter_def split: option.splits)

lemma initIndex_result:
  "initIndex s w = (e, s', w') \<Longrightarrow>
     e = None \<and> idToLabel s' = idToLabel s \<and> labelToId s' = labelToId s \<and> indexConfig s' = indexConfig s \<and>
     counter s' = 0 \<and> indexMetadata s' \<noteq> None \<and> tombstones s' = {} \<and>
     (\<exists>h. index s' = Some h \<and> hnsw_points h = [] \<and> hnsw_dim h = numberOfDimensions (indexConfig s))"
  by (auto simp: initIndex_def save_def Let_def counter_def tombstones_def hnsw_new_def setEf_def split: option.splits if_splits)

lemma assignLabels_props:
  "consistent s \<Longrightarrow> index s \<noteq> None \<Longrightarrow> assignLabels ds u s = (e, s') \<Longrightarrow>
     consistent s' \<and> index s' = index s \<and> indexConfig s' = indexConfig s \<and> saveFolder s' = saveFolder s \<and>
     counter s \<le> counter s' \<and>
     (indexMetadata s \<noteq> None \<longrightarrow> indexMetadata s' \<noteq> None) \<and>
     (\<forall>i l. idToLabel s i = Some l \<longrightarrow> idToLabel s' i = Some l) \<and>
     (\<forall>i l. idToLabel s' i = Some l \<longrightarrow> idToLabel s i = Some l \<or> (counter s < l \<and> i \<in> data_id ` set ds))"
proof (induction ds arbitrary: s)
  case Nil
  then show ?case by simp
next
  case (Cons d ds)
  show ?case
  proof (cases "truthy (idToLabel s (data_id d))")
    case True
    show ?thesis
    proof (cases u)
      case True
      with \<open>truthy (idToLabel s (data_id d))\<close> Cons.prems(3) have rec: "assignLabels ds u s = (e, s')" by simp
      from Cons.IH[OF Cons.prems(1) Cons.prems(2) rec] show ?thesis by auto
    next
      case False
      with \<open>truthy (idToLabel s (data_id d))\<close> Cons.prems show ?thesis by auto
    qed
  next
    case False
    show ?thesis
    proof (cases "indexMetadata s")
      case None
      with False Cons.prems show ?thesis by simp
    next
      case (Some m)
      define s1 where "s1 = s\<lparr>indexMetadata := Some (m\<lparr>elements := elements m + 1\<rparr>),
                        idToLabel := (idToLabel s)(data_id d \<mapsto> elements m + 1),
                        labelToId := (labelToId s)(elements m + 1 \<mapsto> data_id d)\<rparr>"
      have fresh: "idToLabel s (data_id d) = None"
        using False Cons.prems(1) by (auto simp: truthy_def consistent_def split: option.splits)
      have cnt: "counter s = elements m" "counter s1 = elements m + 1"
        using Some by (simp_all add: counter_def s1_def)
      have tomb: "tombstones s1 = tombstones s" by (simp add: tombstones_def s1_def)
      have inv: "\<And>i l. (idToLabel s i = Some l) = (labelToId s l = Some i)"
        and bnd: "\<And>i l. idToLabel s i = Some l \<Longrightarrow> 1 \<le> l \<and> l \<le> counter s \<and> l \<notin> tombstones s"
        and tb: "tombstones s \<subseteq> {..counter s}"
        using Cons.prems(1) Some unfolding consistent_def by auto
      have nolab: "\<And>i. idToLabel s i \<noteq> Some (elements m + 1)"
        using bnd cnt(1) by fastforce
      have nolab': "labelToId s (elements m + 1) = None"
        using nolab inv by (cases "labelToId s (elements m + 1)") auto
      have noid: "\<And>l. labelToId s l \<noteq> Some (data_id d)"
        using inv fresh by (metis option.distinct(1))
      have cons1: "consistent s1"
        unfolding consistent_def
      proof (intro conjI allI impI)
        fix i l
        show "(idToLabel s1 i = Some l) = (labelToId s1 l = Some i)"
          using inv nolab nolab' noid by (auto simp: s1_def)
      next
        fix i l assume "idToLabel s1 i = Some l"
        then have "l = elements m + 1 \<or> idToLabel s i = Some l"
          by (auto simp: s1_def split: if_splits)
        then show "1 \<le> l" "l \<le> counter s1" "l \<notin> tombstones s1"
          using bnd[of i l] cnt tomb tb by auto
      next
        show "tombstones s1 \<subseteq> {..counter s1}" using tb cnt tomb by auto
      next
        assume "index s1 = None"
        then show "idToLabel s1 = Map.empty" "indexMetadata s1 = None" using Cons.prems(2) by (simp_all add: s1_def)
      qed
      have rec: "assignLabels ds u s1 = (e, s')"
        using Cons.prems(3) False Some by (simp add: s1_def Let_def)
      have idx1: "index s1 \<noteq> None" using Cons.prems(2) by (simp add: s1_def)
      note IH = Cons.IH[OF cons1 idx1 rec]
      have s1_lookup: "\<And>i. idToLabel s1 i = (if i = data_id d then Some (elements m + 1) else idToLabel s i)"
        by (simp add: s1_def)
      have keep: "\<forall>i l. idToLabel s i = Some l \<longrightarrow> idToLabel s' i = Some l"
      proof (intro allI impI)
        fix i l assume a: "idToLabel s i = Some l"
        then have "i \<noteq> data_id d" using fresh by auto
        then have "idToLabel s1 i = Some l" using a s1_lookup by simp
        then show "idToLabel s' i = Some l" using IH by blast
      qed
      have new: "\<forall>i l. idToLabel s' i = Some l \<longrightarrow>
                   idToLabel s i = Some l \<or> (counter s < l \<and> i \<in> data_id ` set (d # ds))"
      proof (intro allI impI)
        fix i l assume a: "idToLabel s' i = Some l"
        then have "idToLabel s1 i = Some l \<or> (counter s1 < l \<and> i \<in> data_id ` set ds)"
          using IH by blast
        then show "idToLabel s i = Some l \<or> (counter s < l \<and> i \<in> data_id ` set (d # ds))"
          using s1_lookup[of i] cnt by (auto split: if_splits)
      qed
      have "counter s \<le> counter s'" using IH cnt by simp
      moreover have "index s' = index s" "indexConfig s' = indexConfig s" "saveFolder s' = saveFolder s"
        using IH by (simp_all add: s1_def)
      moreover have "indexMetadata s' \<noteq> None" using IH by (simp add: s1_def)
      ultimately show ?thesis using IH keep new by blast
    qed
  qed
qed


lemma growIndex_props:
  "growIndex s = (e, s') \<Longrightarrow>
     idToLabel s' = idToLabel s \<and> labelToId s' = labelToId s \<and> indexMetadata s' = indexMetadata s \<and>
     indexConfig s' = indexConfig s \<and> saveFolder s' = saveFolder s \<and> tombstones s' = tombstones s \<and>
     (index s' = None \<longleftrightarrow> index s = None)"
  by (auto simp: growIndex_def resizeIndex_def tombstones_def split: option.splits if_splits sum.splits)

lemma addPoint_props:
  "addPoint v l h = Inr h' \<Longrightarrow>
     hnsw_deleted h - {l} \<subseteq> hnsw_deleted h' \<and> hnsw_deleted h' \<subseteq> hnsw_deleted h \<and>
     hnsw_capacity h' = hnsw_capacity h \<and> hnsw_dim h' = hnsw_dim h"
  by (auto simp: addPoint_def split: if_splits)

lemma insertPoints_props:
  "consistent s \<Longrightarrow> insertPoints ds s = (e, s') \<Longrightarrow>
     idToLabel s' = idToLabel s \<and> labelToId s' = labelToId s \<and> indexMetadata s' = indexMetadata s \<and>
     indexConfig s' = indexConfig s \<and> saveFolder s' = saveFolder s \<and> tombstones s' = tombstones s \<and>
     (index s' = None \<longleftrightarrow> index s = None)"
proof (induction ds arbitrary: s)
  case Nil
  then show ?case by simp
next
  case (Cons d ds)
  show ?case
  proof (cases "index s")
    case None
    with Cons.prems show ?thesis by simp
  next
    case (Some h)
    show ?thesis
    proof (cases "idToLabel s (data_id d)")
      case None
      with Some Cons.prems show ?thesis by simp
    next
      case lab: (Some l)
      show ?thesis
      proof (cases "addPoint (embedding d) l h")
        case (Inl err)
        with Some lab Cons.prems show ?thesis by simp
      next
        case (Inr h')
        define s1 where "s1 = s\<lparr>index := Some h'\<rparr>"
        have "l \<notin> tombstones s" using Cons.prems(1) lab unfolding consistent_def by blast
        then have tomb: "tombstones s1 = tombstones s"
          using addPoint_props[OF Inr] Some by (auto simp: tombstones_def s1_def)
        have same: "idToLabel s1 = idToLabel s" "labelToId s1 = labelToId s"
          "indexMetadata s1 = indexMetadata s" "index s1 = None \<longleftrightarrow> index s = None"
          using Some by (simp_all add: s1_def)
        have c1: "consistent s1" using consistent_cong[OF same(1) same(2) same(3) tomb same(4)] Cons.prems(1) by simp
        have rec: "insertPoints ds s1 = (e, s')" using Cons.prems(2) Some lab Inr by (simp add: s1_def)
        from Cons.IH[OF c1 rec] show ?thesis using tomb same Some by (auto simp: s1_def)
      qed
    qed
  qed
qed

lemma consistent_initIndex:
  assumes "consistent s" and "index s = None" and "initIndex s w = (e, s', w')"
  shows "consistent s'" and "counter s = 0"
proof -
  from assms(1,2) have e: "idToLabel s = Map.empty" "indexMetadata s = None"
    unfolding consistent_def by auto
  then have l: "labelToId s = Map.empty"
    using assms(1) unfolding consistent_def by (metis option.exhaust option.distinct(1))
  show "counter s = 0" using e by (simp add: counter_def)
  from initIndex_result[OF assms(3)] e l show "consistent s'"
    unfolding consistent_def by auto
qed

lemma add_props:
  assumes c: "consistent s" and a: "add ds u s w = (e, s', w')"
  shows "consistent s' \<and> counter s \<le> counter s' \<and> tombstones s \<subseteq> tombstones s' \<and>
         (\<forall>i l. idToLabel s i = Some l \<longrightarrow> idToLabel s' i = Some l) \<and>
         (\<forall>i l. idToLabel s' i = Some l \<longrightarrow> idToLabel s i = Some l \<or> (counter s < l \<and> i \<in> data_id ` set ds))"
proof (cases ds)
  case Nil
  with a c show ?thesis by (simp add: add_def)
next
  case (Cons d0 ds0)
  obtain e1 s1 w1 where i: "(if index s = None then initIndex s w else (None, s, w)) = (e1, s1, w1)"
    by (metis prod_cases3)
  have s1: "consistent s1 \<and> counter s1 = counter s \<and> tombstones s \<subseteq> tombstones s1 \<and> idToLabel s1 = idToLabel s \<and> e1 = None \<and> index s1 \<noteq> None"
  proof (cases "index s")
    case None
    then have ii: "initIndex s w = (e1, s1, w1)" using i by simp
    from consistent_initIndex[OF c None ii] initIndex_result[OF ii] None show ?thesis
      by (auto simp: tombstones_def)
  next
    case (Some h)
    then show ?thesis using i c by auto
  qed
  then obtain h where h: "index s1 = Some h" by auto
  show ?thesis
  proof (cases "length (embedding d0) \<noteq> getNumDimensions h")
    case True
    then have "s' = s1" using a Cons i s1 h by (simp add: add_def)
    then show ?thesis using s1 by auto
  next
    case False
    obtain e2 s2 where al: "assignLabels ds u s1 = (e2, s2)" by force
    have idx1: "index s1 \<noteq> None" using h by simp
    note P2 = assignLabels_props[OF conjunct1[OF s1] idx1 al]
    have goal2: "consistent s2 \<and> counter s \<le> counter s2 \<and> tombstones s \<subseteq> tombstones s2 \<and>
         (\<forall>i l. idToLabel s i = Some l \<longrightarrow> idToLabel s2 i = Some l) \<and>
         (\<forall>i l. idToLabel s2 i = Some l \<longrightarrow> idToLabel s i = Some l \<or> (counter s < l \<and> i \<in> data_id ` set ds))"
      using P2 s1 by (auto simp: tombstones_def)
    show ?thesis
    proof (cases e2)
      case (Some err)
      then have "s' = s2" using a Cons i s1 h False al by (simp add: add_def)
      then show ?thesis using goal2 by simp
    next
      case None
      obtain e3 s3 where g: "growIndex s2 = (e3, s3)" by force
      note P3 = growIndex_props[OF g]
      have c3: "consistent s3" using consistent_cong[of s3 s2] P3 goal2 by simp
      show ?thesis
      proof (cases e3)
        case (Some err)
        then have "s' = s3" using a Cons i s1 h False al None g by (simp add: add_def)
        then show ?thesis using goal2 P3 c3 by (simp add: counter_def)
      next
        case e3: None
        obtain e4 s4 where ip: "insertPoints ds s3 = (e4, s4)" by force
        note P4 = insertPoints_props[OF c3 ip]
        have c4: "consistent s4" using consistent_cong[of s4 s3] P4 c3 by simp
        have "s' = s4"
        proof (cases e4)
          case (Some err)
          then show ?thesis using a Cons i s1 h False al None g e3 ip by (simp add: add_def)
        next
          case e4: None
          then have "save s4 w1 = (e, s', w')" using a Cons i s1 h False al None g e3 ip by (simp add: add_def)
          then show ?thesis using save_state by blast
        qed
        then show ?thesis using goal2 P3 P4 c4 by (simp add: counter_def)
      qed
    qed
  qed
qed

lemma markDelete_props:
  "markDelete lab h = Inr h' \<Longrightarrow>
     \<exists>l. lab = Some l \<and> l \<in> fst ` set (hnsw_points h) \<and> l \<notin> hnsw_deleted h \<and>
         h' = h\<lparr>hnsw_deleted := insert l (hnsw_deleted h)\<rparr>"
  by (auto simp: markDelete_def split: option.splits if_splits)

lemma deleteLoop_props:
  "consistent s \<Longrightarrow> deleteLoop ids s = (e, s') \<Longrightarrow>
     consistent s' \<and> indexMetadata s' = indexMetadata s \<and> indexConfig s' = indexConfig s \<and>
     saveFolder s' = saveFolder s \<and> tombstones s \<subseteq> tombstones s' \<and>
     (\<forall>i l. idToLabel s' i = Some l \<longrightarrow> idToLabel s i = Some l) \<and>
     (\<forall>i l. idToLabel s i = Some l \<and> i \<notin> set ids \<longrightarrow> idToLabel s' i = Some l) \<and>
     (e = None \<longrightarrow> distinct ids \<and>
        (\<forall>i\<in>set ids. idToLabel s' i = None \<and>
           (\<exists>l. idToLabel s i = Some l \<and> labelToId s' l = None \<and> l \<in> tombstones s')))"
proof (induction ids arbitrary: s)
  case Nil
  then show ?case by simp
next
  case (Cons i ids)
  show ?case
  proof (cases "index s")
    case None
    with Cons.prems have "e = Some TypeError" "s' = s" by auto
    with Cons.prems(1) show ?thesis by simp
  next
    case (Some h)
    show ?thesis
    proof (cases "markDelete (idToLabel s i) h")
      case (Inl err)
      with Some Cons.prems have "e = Some err" "s' = s" by auto
      with Cons.prems(1) show ?thesis by simp
    next
      case (Inr h')
      from markDelete_props[OF Inr] obtain l where
        lab: "idToLabel s i = Some l" and nd: "l \<notin> hnsw_deleted h"
        and h': "h' = h\<lparr>hnsw_deleted := insert l (hnsw_deleted h)\<rparr>" by blast
      define s1 where "s1 = s\<lparr>index := Some h', labelToId := (labelToId s)(l := None),
                                idToLabel := (idToLabel s)(i := None)\<rparr>"
      have inv: "\<And>j k. (idToLabel s j = Some k) = (labelToId s k = Some j)"
        and bnd: "\<And>j k. idToLabel s j = Some k \<Longrightarrow> 1 \<le> k \<and> k \<le> counter s \<and> k \<notin> tombstones s"
        and tb: "indexMetadata s \<noteq> None \<Longrightarrow> tombstones s \<subseteq> {..counter s}"
        using Cons.prems(1) unfolding consistent_def by auto
      have li: "labelToId s l = Some i" using inv lab by simp
      have l1: "\<And>j. idToLabel s1 j = (if j = i then None else idToLabel s j)"
        and l2: "\<And>k. labelToId s1 k = (if k = l then None else labelToId s k)"
        by (simp_all add: s1_def)
      have other: "\<And>j k. j \<noteq> i \<Longrightarrow> idToLabel s j = Some k \<Longrightarrow> k \<noteq> l"
        using inv li by fastforce
      have tomb1: "tombstones s1 = insert l (tombstones s)"
        using Some h' by (simp add: tombstones_def s1_def)
      have cnt1: "counter s1 = counter s" "indexMetadata s1 = indexMetadata s"
        by (simp_all add: counter_def s1_def)
      have c1: "consistent s1"
        unfolding consistent_def
      proof (intro conjI allI impI)
        fix j k
        show "(idToLabel s1 j = Some k) = (labelToId s1 k = Some j)"
        proof (cases "j = i")
          case True
          have "labelToId s k = Some i \<Longrightarrow> k = l" using inv[of i k] lab by simp
          then show ?thesis using True by (auto simp: l1 l2)
        next
          case False
          have "idToLabel s j = Some k \<Longrightarrow> k \<noteq> l" using other[OF False] by simp
          then show ?thesis using False inv[of j k] by (auto simp: l1 l2)
        qed
      next
        fix j k assume a: "idToLabel s1 j = Some k"
        then have "j \<noteq> i" "idToLabel s j = Some k" by (auto simp: l1 split: if_splits)
        then have "k \<noteq> l" "1 \<le> k \<and> k \<le> counter s \<and> k \<notin> tombstones s"
          using other[of j k] bnd[of j k] by simp_all
        then show "1 \<le> k" "k \<le> counter s1" "k \<notin> tombstones s1"
          by (simp_all add: cnt1 tomb1)
      next
        assume "indexMetadata s1 \<noteq> None"
        then have "tombstones s \<subseteq> {..counter s}" using tb cnt1 by simp
        moreover have "l \<le> counter s" using bnd[OF lab] by simp
        ultimately show "tombstones s1 \<subseteq> {..counter s1}"
          by (simp add: cnt1 tomb1)
      next
        assume "index s1 = None"
        then show "idToLabel s1 = Map.empty" "indexMetadata s1 = None" by (simp_all add: s1_def)
      qed
      have rec: "deleteLoop ids s1 = (e, s')"
        using Cons.prems(2) Some Inr lab by (simp add: s1_def)
      note IH = Cons.IH[OF c1 rec]
      have IHc: "consistent s'" by (rule IH[THEN conjunct1])
      have IHm: "indexMetadata s' = indexMetadata s1" "indexConfig s' = indexConfig s1" "saveFolder s' = saveFolder s1"
        by (rule IH[THEN conjunct2, THEN conjunct1], rule IH[THEN conjunct2, THEN conjunct2, THEN conjunct1], rule IH[THEN conjunct2, THEN conjunct2, THEN conjunct2, THEN conjunct1])
      have IHt: "tombstones s1 \<subseteq> tombstones s'" by (rule IH[THEN conjunct2, THEN conjunct2, THEN conjunct2, THEN conjunct2, THEN conjunct1])
      have IHsub: "\<And>j k. idToLabel s' j = Some k \<Longrightarrow> idToLabel s1 j = Some k"
        using IH[THEN conjunct2, THEN conjunct2, THEN conjunct2, THEN conjunct2, THEN conjunct2, THEN conjunct1] by blast
      have IHkeep: "\<And>j k. idToLabel s1 j = Some k \<Longrightarrow> j \<notin> set ids \<Longrightarrow> idToLabel s' j = Some k"
        using IH[THEN conjunct2, THEN conjunct2, THEN conjunct2, THEN conjunct2, THEN conjunct2, THEN conjunct2, THEN conjunct1] by blast
      note IHok = IH[THEN conjunct2, THEN conjunct2, THEN conjunct2, THEN conjunct2, THEN conjunct2, THEN conjunct2, THEN conjunct2]
      have sub: "\<forall>j k. idToLabel s' j = Some k \<longrightarrow> idToLabel s j = Some k"
      proof (intro allI impI)
        fix j k assume "idToLabel s' j = Some k"
        then have "idToLabel s1 j = Some k" by (rule IHsub)
        then show "idToLabel s j = Some k" by (simp add: l1 split: if_splits)
      qed
      have keep: "\<forall>j k. idToLabel s j = Some k \<and> j \<notin> set (i # ids) \<longrightarrow> idToLabel s' j = Some k"
      proof (intro allI impI)
        fix j k assume a: "idToLabel s j = Some k \<and> j \<notin> set (i # ids)"
        then have "idToLabel s1 j = Some k" "j \<notin> set ids" by (simp_all add: l1)
        then show "idToLabel s' j = Some k" by (rule IHkeep)
      qed
      have ok: "e = None \<longrightarrow> distinct (i # ids) \<and>
        (\<forall>j\<in>set (i # ids). idToLabel s' j = None \<and>
           (\<exists>k. idToLabel s j = Some k \<and> labelToId s' k = None \<and> k \<in> tombstones s'))"
      proof
        assume en: "e = None"
        then have d: "distinct ids" and
          each: "\<forall>j\<in>set ids. idToLabel s' j = None \<and>
             (\<exists>k. idToLabel s1 j = Some k \<and> labelToId s' k = None \<and> k \<in> tombstones s')"
          using IHok by simp_all
        have ni: "i \<notin> set ids"
        proof
          assume "i \<in> set ids"
          then obtain k where "idToLabel s1 i = Some k" using each by blast
          then show False by (simp add: l1)
        qed
        have i1: "idToLabel s' i = None"
        proof (cases "idToLabel s' i")
          case (Some k)
          then have "idToLabel s1 i = Some k" by (rule IHsub)
          then show ?thesis by (simp add: l1)
        qed simp
        have i2: "labelToId s' l = None"
        proof (cases "labelToId s' l")
          case (Some j)
          then have "idToLabel s' j = Some l" using IHc unfolding consistent_def by blast
          then have "idToLabel s1 j = Some l" by (rule IHsub)
          then have "j \<noteq> i" "idToLabel s j = Some l" by (auto simp: l1 split: if_splits)
          then show ?thesis using other by blast
        qed simp
        have i3: "l \<in> tombstones s'" using IHt tomb1 by auto
        have rest: "\<forall>j\<in>set ids. idToLabel s' j = None \<and>
           (\<exists>k. idToLabel s j = Some k \<and> labelToId s' k = None \<and> k \<in> tombstones s')"
        proof
          fix j assume "j \<in> set ids"
          then obtain k where k: "idToLabel s' j = None" "idToLabel s1 j = Some k"
            "labelToId s' k = None" "k \<in> tombstones s'" using each by blast
          from k(2) have "idToLabel s j = Some k" by (simp add: l1 split: if_splits)
          with k show "idToLabel s' j = None \<and>
           (\<exists>k. idToLabel s j = Some k \<and> labelToId s' k = None \<and> k \<in> tombstones s')" by simp
        qed
        show "distinct (i # ids) \<and>
        (\<forall>j\<in>set (i # ids). idToLabel s' j = None \<and>
           (\<exists>k. idToLabel s j = Some k \<and> labelToId s' k = None \<and> k \<in> tombstones s'))"
          using d ni i1 i2 i3 lab rest by simp
      qed
      have t: "tombstones s \<subseteq> tombstones s'" using IHt tomb1 by auto
      have m: "indexMetadata s' = indexMetadata s" "indexConfig s' = indexConfig s" "saveFolder s' = saveFolder s"
        using IHm by (simp_all add: s1_def)
      show ?thesis
        apply (intro conjI)
        subgoal by (rule IHc)
        subgoal by (rule m)
        subgoal by (rule m)
        subgoal by (rule m)
        subgoal by (rule t)
        subgoal by (rule sub)
        subgoal by (rule keep)
        subgoal by (rule ok)
        done
    qed
  qed
qed

lemma delete_props:
  assumes c: "consistent s" and a: "delete ids s w = (e, s', w')"
  shows "consistent s' \<and> counter s' = counter s \<and> tombstones s \<subseteq> tombstones s' \<and>
     (\<forall>i l. idToLabel s' i = Some l \<longrightarrow> idToLabel s i = Some l) \<and>
     (\<forall>i l. idToLabel s i = Some l \<and> i \<notin> set ids \<longrightarrow> idToLabel s' i = Some l) \<and>
     (e = None \<longrightarrow> distinct ids \<and>
        (\<forall>i\<in>set ids. idToLabel s' i = None \<and>
           (\<exists>l. idToLabel s i = Some l \<and> labelToId s' l = None \<and> l \<in> tombstones s')))"
proof -
  obtain e1 s1 where dl: "deleteLoop ids s = (e1, s1)" by force
  note P = deleteLoop_props[OF c dl]
  have s': "s' = s1"
  proof (cases e1)
    case None
    then have "save s1 w = (e, s', w')" using a dl by (simp add: delete_def)
    then show ?thesis using save_state by blast
  next
    case (Some err)
    then show ?thesis using a dl by (simp add: delete_def)
  qed
  have en: "e = None \<Longrightarrow> e1 = None" using a dl by (cases e1) (auto simp: delete_def)
  have cs: "counter s' = counter s" using P[THEN conjunct2, THEN conjunct1] s' by (simp add: counter_def)
  show ?thesis
    apply (intro conjI)
    subgoal using P[THEN conjunct1] s' by simp
    subgoal by (rule cs)
    subgoal using P[THEN conjunct2, THEN conjunct2, THEN conjunct2, THEN conjunct2, THEN conjunct1] s' by simp
    subgoal using P[THEN conjunct2, THEN conjunct2, THEN conjunct2, THEN conjunct2, THEN conjunct2, THEN conjunct1] s' by simp
    subgoal using P[THEN conjunct2, THEN conjunct2, THEN conjunct2, THEN conjunct2, THEN conjunct2, THEN conjunct2, THEN conjunct1] s' by simp
    subgoal using P[THEN conjunct2, THEN conjunct2, THEN conjunct2, THEN conjunct2, THEN conjunct2, THEN conjunct2, THEN conjunct2] s' en by simp
    done
qed

subsection \<open>Evaluating the scenario\<close>

lemmas scenario_defs = docsConfig_def emptyWorld_def recA_def recB_def recC_def
  scenarioHnsw_def scenarioIndex_def scenarioWorld_def innerDistance_def query0_def

lemmas hnsw_defs = hnsw_new_def setEf_def getNumDimensions_def getCurrentCount_def resizeIndex_def
  toUint32_def addPoint_def markDelete_def getPoint_def candidates_def searchKnn_def

lemmas index_defs = add_def newDbIndex_def load_def validateIndexConfig_def indexSavePath_def
  initIndex_def save_def Let_def efOf_def truthy_def growIndex_def newSize_def resizeFactor_def
  DEFAULT_MAX_ELEMENTS_IN_INDEX_def DEFAULT_SIZE_OF_DYNAMIC_LIST_OF_NEAREST_NEIGHBORS_def
  delete_def search_def filterLabels_def

lemma scenario_add:
  "add [recA, recB, recC] False (newDbIndex docsConfig emptyWorld) emptyWorld
     = (None, scenarioIndex, scenarioWorld)"
  by (simp add: scenario_defs hnsw_defs index_defs numeral_2_eq_2 numeral_3_eq_3)

lemma scenario_delete_a:
  "delete [''a''] scenarioIndex scenarioWorld = (None, scenarioDeleted, scenarioDeletedWorld)"
  by (simp add: scenario_defs scenarioDeleted_def scenarioDeletedWorld_def hnsw_defs index_defs)

lemma scenario_update_c:
  "add [recC] True scenarioDeleted scenarioDeletedWorld = (None, scenarioDeleted, scenarioDeletedWorld)"
  by (simp add: scenario_defs scenarioDeleted_def scenarioDeletedWorld_def hnsw_defs index_defs)

lemma scenario_search_deleted:
  "search innerDistance scenarioDeleted query0 1 [] =
     Inr [\<lparr>hit_id = Some ''b'', distance = 9 / 10, hit_embedding = [0, 1, 0]\<rparr>]"
  by (simp add: scenario_defs scenarioDeleted_def hnsw_defs index_defs)

lemma scenario_reinsert_a:
  "add [recA] False scenarioDeleted scenarioDeletedWorld
     = (None, scenarioReinserted, scenarioReinsertedWorld)"
  by (simp add: scenario_defs scenarioDeleted_def scenarioDeletedWorld_def
      scenarioReinserted_def scenarioReinsertedWorld_def hnsw_defs index_defs)

lemma scenario_search_reinserted:
  "search innerDistance scenarioReinserted query0 1 [] =
     Inr [\<lparr>hit_id = Some ''a'', distance = 1 / 10, hit_embedding = [1, 0, 0]\<rparr>]"
  by (simp add: scenario_defs scenarioReinserted_def hnsw_defs index_defs)

subsection \<open>Deleting an id that has no label\<close>

lemma deleteLoop_live:
  "deleteLoop ids s = (None, s') \<Longrightarrow>
     \<forall>i\<in>set ids. \<exists>l h. idToLabel s i = Some l \<and> index s = Some h \<and>
        l \<in> fst ` set (hnsw_points h) \<and> l \<notin> hnsw_deleted h"
proof (induction ids arbitrary: s)
  case Nil
  then show ?case by simp
next
  case (Cons i ids)
  from Cons.prems obtain h where h: "index s = Some h"
    by (cases "index s") auto
  from Cons.prems h obtain h' where md: "markDelete (idToLabel s i) h = Inr h'"
    by (cases "markDelete (idToLabel s i) h") auto
  from markDelete_props[OF md] obtain l where
    lab: "idToLabel s i = Some l" and lp: "l \<in> fst ` set (hnsw_points h)" and nd: "l \<notin> hnsw_deleted h"
    and h': "h' = h\<lparr>hnsw_deleted := insert l (hnsw_deleted h)\<rparr>" by blast
  define s1 where "s1 = s\<lparr>index := Some h', labelToId := (labelToId s)(l := None),
                            idToLabel := (idToLabel s)(i := None)\<rparr>"
  have rec: "deleteLoop ids s1 = (None, s')"
    using Cons.prems h md lab by (simp add: s1_def)
  note IH = Cons.IH[OF rec]
  show ?case
  proof
    fix j assume "j \<in> set (i # ids)"
    then consider "j = i" | "j \<in> set ids" by auto
    then show "\<exists>l h. idToLabel s j = Some l \<and> index s = Some h \<and>
        l \<in> fst ` set (hnsw_points h) \<and> l \<notin> hnsw_deleted h"
    proof cases
      case 1
      then show ?thesis using lab h lp nd by simp
    next
      case 2
      with IH obtain k h1 where k: "idToLabel s1 j = Some k" "index s1 = Some h1"
        "k \<in> fst ` set (hnsw_points h1)" "k \<notin> hnsw_deleted h1" by blast
      from k(2) have "h1 = h'" by (simp add: s1_def)
      with k h' have "k \<in> fst ` set (hnsw_points h)" "k \<notin> hnsw_deleted h" by simp_all
      moreover from k(1) have "idToLabel s j = Some k" by (simp add: s1_def split: if_splits)
      ultimately show ?thesis using h by simp
    qed
  qed
qed

lemma deleteLoop_outcome:
  "deleteLoop ids s = (e, s') \<Longrightarrow> \<exists>i\<in>set ids. idToLabel s i = None \<Longrightarrow> e \<noteq> None"
  using deleteLoop_live[of ids s s'] by (cases e) auto

text \<open>
  Claim C10. An id without a currently assigned label is not skipped by \<open>delete\<close>: the
  mark-delete of the underlying structure is called with the undefined label and throws,
  so that a call for such an id alone leaves index and file system as they were; whenever
  some id of the list has no label the call fails and the file system is unchanged (no
  snapshot is written); and a call that returns normally had, for every id of its list, a
  label that was a stored and not yet tombstoned point.
\<close>

theorem delete_needs_live_ids:
  "(idToLabel s i = None \<longrightarrow> delete [i] s w = (Some TypeError, s, w)) \<and>
   ((\<exists>i\<in>set ids. idToLabel s i = None) \<longrightarrow>
      (\<exists>e s'. delete ids s w = (Some e, s', w))) \<and>
   (fst (delete ids s w) = None \<longrightarrow>
      (\<forall>i\<in>set ids. \<exists>l h. idToLabel s i = Some l \<and> index s = Some h \<and>
          l \<in> fst ` set (hnsw_points h) \<and> l \<notin> hnsw_deleted h))"
proof (intro conjI impI)
  assume "idToLabel s i = None"
  then show "delete [i] s w = (Some TypeError, s, w)"
    by (simp add: delete_def markDelete_def split: option.splits)
next
  assume a: "\<exists>i\<in>set ids. idToLabel s i = None"
  obtain e s' where dl: "deleteLoop ids s = (e, s')" by force
  from deleteLoop_outcome[OF dl a] obtain err where "e = Some err" by auto
  with dl show "\<exists>e s'. delete ids s w = (Some e, s', w)" by (simp add: delete_def)
next
  assume a: "fst (delete ids s w) = None"
  obtain e s' where dl: "deleteLoop ids s = (e, s')" by force
  have "e = None" using a dl by (cases e) (simp_all add: delete_def)
  with dl deleteLoop_live show "\<forall>i\<in>set ids. \<exists>l h. idToLabel s i = Some l \<and> index s = Some h \<and>
          l \<in> fst ` set (hnsw_points h) \<and> l \<notin> hnsw_deleted h" by blast
qed

theorem delete_needs_live_ids_witness:
  "idToLabel scenarioIndex ''x'' = None \<and>
   delete [''x''] scenarioIndex scenarioWorld = (Some TypeError, scenarioIndex, scenarioWorld) \<and>
   (\<exists>e s'. delete [''a'', ''x''] scenarioIndex scenarioWorld = (Some e, s', scenarioWorld)) \<and>
   fst (delete [''a'', ''b''] scenarioIndex scenarioWorld) = None \<and>
   idToLabel scenarioIndex ''a'' = Some 1 \<and> idToLabel scenarioIndex ''b'' = Some 2"
proof -
  have h1: "idToLabel scenarioIndex ''x'' = None" by (simp add: scenarioIndex_def)
  have h2: "\<exists>i\<in>set [''a'', ''x'']. idToLabel scenarioIndex i = None" by (simp add: scenarioIndex_def)
  have h3: "fst (delete [''a'', ''b''] scenarioIndex scenarioWorld) = None"
    by (simp add: scenario_defs hnsw_defs index_defs)
  from delete_needs_live_ids[of scenarioIndex "''x''" scenarioWorld "[''a'', ''x'']"] h1 h2
  have a: "delete [''x''] scenarioIndex scenarioWorld = (Some TypeError, scenarioIndex, scenarioWorld)"
    and b: "\<exists>e s'. delete [''a'', ''x''] scenarioIndex scenarioWorld = (Some e, s', scenarioWorld)"
    by blast+
  from delete_needs_live_ids[of scenarioIndex "''x''" scenarioWorld "[''a'', ''b'']"] h3
  have c: "\<forall>i\<in>set [''a'', ''b'']. \<exists>l h. idToLabel scenarioIndex i = Some l \<and> index scenarioIndex = Some h \<and>
          l \<in> fst ` set (hnsw_points h) \<and> l \<notin> hnsw_deleted h" by blast
  have d: "idToLabel scenarioIndex ''a'' = Some 1 \<and> idToLabel scenarioIndex ''b'' = Some 2"
    by (simp add: scenarioIndex_def)
  show ?thesis using h1 a b h3 c d by simp
qed

subsection \<open>Every run keeps the state consistent\<close>

lemma step_props:
  assumes c: "consistent s" and st: "step op (s, w) = (s', w')"
  shows "consistent s'" and "counter s \<le> counter s'" and "tombstones s \<subseteq> tombstones s'"
    and "\<And>i l. idToLabel s' i = Some l \<Longrightarrow> idToLabel s i = Some l \<or> counter s < l"
proof -
  have "consistent s' \<and> counter s \<le> counter s' \<and> tombstones s \<subseteq> tombstones s' \<and>
        (\<forall>i l. idToLabel s' i = Some l \<longrightarrow> idToLabel s i = Some l \<or> counter s < l)"
  proof (cases op)
    case (Add ds u)
    obtain e where a: "add ds u s w = (e, s', w')" using st Add by (cases "add ds u s w") simp
    note P = add_props[OF c a]
    have "\<forall>i l. idToLabel s' i = Some l \<longrightarrow> idToLabel s i = Some l \<or> counter s < l"
      using P[THEN conjunct2, THEN conjunct2, THEN conjunct2, THEN conjunct2] by blast
    then show ?thesis
      using P[THEN conjunct1] P[THEN conjunct2, THEN conjunct1] P[THEN conjunct2, THEN conjunct2, THEN conjunct1] by blast
  next
    case (Delete ids)
    obtain e where d: "delete ids s w = (e, s', w')" using st Delete by (cases "delete ids s w") simp
    note P = delete_props[OF c d]
    have "counter s \<le> counter s'" using P[THEN conjunct2, THEN conjunct1] by simp
    moreover have "\<forall>i l. idToLabel s' i = Some l \<longrightarrow> idToLabel s i = Some l \<or> counter s < l"
      using P[THEN conjunct2, THEN conjunct2, THEN conjunct2, THEN conjunct1] by blast
    ultimately show ?thesis
      using P[THEN conjunct1] P[THEN conjunct2, THEN conjunct2, THEN conjunct1] by blast
  qed
  then show "consistent s'" and "counter s \<le> counter s'" and "tombstones s \<subseteq> tombstones s'"
    and "\<And>i l. idToLabel s' i = Some l \<Longrightarrow> idToLabel s i = Some l \<or> counter s < l"
    by blast+
qed

lemma run_consistent:
  "consistent s \<Longrightarrow> run ops (s, w) = (s', w') \<Longrightarrow> consistent s'"
proof (induction ops arbitrary: s w)
  case Nil
  then show ?case by (simp add: run_def)
next
  case (Cons op ops)
  obtain s1 w1 where st: "step op (s, w) = (s1, w1)" by force
  from step_props(1)[OF Cons.prems(1) st] have c1: "consistent s1" .
  from Cons.prems(2) st have "run ops (s1, w1) = (s', w')" by (simp add: run_def)
  from Cons.IH[OF c1 this] show ?case .
qed

subsection \<open>A deleted id is not returned\<close>

lemma mkHits_Inr:
  "mkHits s h res = Inr hits \<Longrightarrow>
     (\<forall>r\<in>set res. \<exists>v. map_of (hnsw_points h) (snd r) = Some v) \<and>
     hits = map (\<lambda>r. \<lparr>hit_id = labelToId s (snd r), distance = fst r,
                       hit_embedding = the (map_of (hnsw_points h) (snd r))\<rparr>) res"
proof (induction res arbitrary: hits)
  case Nil
  then show ?case by simp
next
  case (Cons r rs)
  from Cons.prems obtain v where v: "map_of (hnsw_points h) (snd r) = Some v"
    by (cases "map_of (hnsw_points h) (snd r)") (auto simp: getPoint_def)
  from Cons.prems v obtain hs where hs: "mkHits s h rs = Inr hs"
    by (cases "mkHits s h rs") (auto simp: getPoint_def)
  from Cons.prems v hs have "hits = \<lparr>hit_id = labelToId s (snd r), distance = fst r, hit_embedding = v\<rparr> # hs"
    by (simp add: getPoint_def)
  with Cons.IH[OF hs] v show ?case by simp
qed

lemma mkHits_Inl: "mkHits s h res = Inl e \<Longrightarrow> e = HnswError"
  by (induction res) (auto simp: getPoint_def split: option.splits sum.splits)


lemma search_hit_ids:
  assumes "search distFn s q k ids = Inr hits" and "hit \<in> set hits"
  shows "\<exists>l. hit_id hit = labelToId s l"
proof -
  from assms(1) obtain h res hs where "mkHits s h res = Inr hs" and "hits = sort_key distance hs"
    by (auto simp: search_def Let_def split: option.splits if_splits sum.splits)
  with mkHits_Inr[of s h res hs] assms(2) show ?thesis by auto
qed

lemma run_label_origin:
  "consistent s \<Longrightarrow> run ops (s, w) = (s', w') \<Longrightarrow> idToLabel s' i = Some l \<Longrightarrow>
     idToLabel s i = Some l \<or>
     (counter s < l \<and> (\<exists>ds u. Add ds u \<in> set ops \<and> i \<in> data_id ` set ds))"
proof (induction ops arbitrary: s w)
  case Nil
  then show ?case by (simp add: run_def)
next
  case (Cons op ops)
  obtain s1 w1 where st: "step op (s, w) = (s1, w1)" by force
  have c1: "consistent s1" using step_props(1)[OF Cons.prems(1) st] .
  have mono: "counter s \<le> counter s1" using step_props(2)[OF Cons.prems(1) st] .
  have r: "run ops (s1, w1) = (s', w')" using Cons.prems(2) st by (simp add: run_def)
  from Cons.IH[OF c1 r Cons.prems(3)]
  consider (old) "idToLabel s1 i = Some l"
    | (new) "counter s1 < l" "\<exists>ds u. Add ds u \<in> set ops \<and> i \<in> data_id ` set ds"
    by blast
  then show ?case
  proof cases
    case new
    then show ?thesis using mono by auto
  next
    case old
    show ?thesis
    proof (cases op)
      case (Add ds u)
      obtain e where a: "add ds u s w = (e, s1, w1)" using st Add by (cases "add ds u s w") simp
      note P = add_props[OF Cons.prems(1) a, THEN conjunct2, THEN conjunct2, THEN conjunct2, THEN conjunct2]
      from P old have "idToLabel s i = Some l \<or> (counter s < l \<and> i \<in> data_id ` set ds)" by blast
      then show ?thesis using Add by auto
    next
      case (Delete ids)
      obtain e where d: "delete ids s w = (e, s1, w1)" using st Delete by (cases "delete ids s w") simp
      note P = delete_props[OF Cons.prems(1) d, THEN conjunct2, THEN conjunct2, THEN conjunct2, THEN conjunct1]
      from P old have "idToLabel s i = Some l" by blast
      then show ?thesis by simp
    qed
  qed
qed

text \<open>
  Claim C7, as amended. Let \<open>delete([i])\<close> return normally in a state reached from a new
  index by \<open>add\<close> and \<open>delete\<close> calls. The delete leaves the cumulative counter unchanged
  and \<open>i\<close> without a label. After any further calls, a search, whatever its query, \<open>k\<close>,
  id filter and metric, returns a hit with id \<open>i\<close> only if one of those calls was an
  \<open>add\<close> naming \<open>i\<close> that gave it a new label, larger than the counter at the time of the
  delete; if no later \<open>add\<close> names \<open>i\<close>, no search returns it.
\<close>

theorem deleted_id_needs_reinsertion:
  assumes r: "run ops (newDbIndex c w0, w0) = (s, w)"
    and d: "delete [i] s w = (None, s1, w1)"
    and r': "run ops' (s1, w1) = (s2, w2)"
    and srch: "search distFn s2 q k ids = Inr hits"
  shows "counter s1 = counter s \<and> idToLabel s1 i = None \<and>
         (Some i \<in> hit_id ` set hits \<longrightarrow>
            (\<exists>l. idToLabel s2 i = Some l \<and> counter s < l) \<and>
            (\<exists>ds u. Add ds u \<in> set ops' \<and> i \<in> data_id ` set ds)) \<and>
         ((\<forall>ds u. Add ds u \<in> set ops' \<longrightarrow> i \<notin> data_id ` set ds) \<longrightarrow>
            Some i \<notin> hit_id ` set hits)"
proof -
  have cs: "consistent s" using run_consistent[OF consistent_newDbIndex r] .
  note P = delete_props[OF cs d]
  have c1: "consistent s1" by (rule P[THEN conjunct1])
  have cnt: "counter s1 = counter s" by (rule P[THEN conjunct2, THEN conjunct1])
  have "\<forall>j\<in>set [i]. idToLabel s1 j = None \<and>
           (\<exists>l. idToLabel s j = Some l \<and> labelToId s1 l = None \<and> l \<in> tombstones s1)"
    using P[THEN conjunct2, THEN conjunct2, THEN conjunct2, THEN conjunct2, THEN conjunct2] by simp
  then have n1: "idToLabel s1 i = None" by simp
  have c2: "consistent s2" using run_consistent[OF c1 r'] .
  have hit: "Some i \<in> hit_id ` set hits \<longrightarrow>
            (\<exists>l. idToLabel s2 i = Some l \<and> counter s < l) \<and>
            (\<exists>ds u. Add ds u \<in> set ops' \<and> i \<in> data_id ` set ds)"
  proof
    assume "Some i \<in> hit_id ` set hits"
    then obtain h where "h \<in> set hits" "hit_id h = Some i" by force
    with search_hit_ids[OF srch] obtain l where "labelToId s2 l = Some i" by metis
    then have l: "idToLabel s2 i = Some l" using c2 unfolding consistent_def by (elim conjE) simp
    from run_label_origin[OF c1 r' l] n1 cnt
    have "counter s < l" "\<exists>ds u. Add ds u \<in> set ops' \<and> i \<in> data_id ` set ds" by simp_all
    with l show "(\<exists>l. idToLabel s2 i = Some l \<and> counter s < l) \<and>
            (\<exists>ds u. Add ds u \<in> set ops' \<and> i \<in> data_id ` set ds)" by simp
  qed
  have nohit: "(\<forall>ds u. Add ds u \<in> set ops' \<longrightarrow> i \<notin> data_id ` set ds) \<longrightarrow>
            Some i \<notin> hit_id ` set hits"
    using hit by blast
  show ?thesis
    apply (intro conjI)
    subgoal by (rule cnt)
    subgoal by (rule n1)
    subgoal by (rule hit)
    subgoal by (rule nohit)
    done
qed

theorem deleted_id_needs_reinsertion_witness:
  "run [Add [recA, recB, recC] False] (newDbIndex docsConfig emptyWorld, emptyWorld)
     = (scenarioIndex, scenarioWorld) \<and>
   delete [''a''] scenarioIndex scenarioWorld = (None, scenarioDeleted, scenarioDeletedWorld) \<and>
   run [Add [recC] True] (scenarioDeleted, scenarioDeletedWorld)
     = (scenarioDeleted, scenarioDeletedWorld) \<and>
   search innerDistance scenarioDeleted query0 1 [] =
     Inr [\<lparr>hit_id = Some ''b'', distance = 9 / 10, hit_embedding = [0, 1, 0]\<rparr>] \<and>
   counter scenarioDeleted = counter scenarioIndex \<and>
   idToLabel scenarioDeleted ''a'' = None \<and>
   ''a'' \<notin> data_id ` set [recC] \<and>
   Some ''a'' \<notin> hit_id ` set [\<lparr>hit_id = Some ''b'', distance = 9 / 10 :: rat,
                                   hit_embedding = [0, 1, 0]\<rparr>] \<and>
   run [Add [recA] False] (scenarioDeleted, scenarioDeletedWorld)
     = (scenarioReinserted, scenarioReinsertedWorld) \<and>
   search innerDistance scenarioReinserted query0 1 [] =
     Inr [\<lparr>hit_id = Some ''a'', distance = 1 / 10, hit_embedding = [1, 0, 0]\<rparr>] \<and>
   Some ''a'' \<in> hit_id ` set [\<lparr>hit_id = Some ''a'', distance = 1 / 10 :: rat,
                                   hit_embedding = [1, 0, 0]\<rparr>] \<and>
   (\<exists>l. idToLabel scenarioReinserted ''a'' = Some l \<and> counter scenarioIndex < l) \<and>
   (\<exists>ds u. Add ds u \<in> set [Add [recA] False] \<and> ''a'' \<in> data_id ` set ds)"
proof -
  have r: "run [Add [recA, recB, recC] False] (newDbIndex docsConfig emptyWorld, emptyWorld)
     = (scenarioIndex, scenarioWorld)"
    by (simp add: run_def scenario_add)
  have r1: "run [Add [recC] True] (scenarioDeleted, scenarioDeletedWorld)
     = (scenarioDeleted, scenarioDeletedWorld)"
    by (simp add: run_def scenario_update_c)
  have r2: "run [Add [recA] False] (scenarioDeleted, scenarioDeletedWorld)
     = (scenarioReinserted, scenarioReinsertedWorld)"
    by (simp add: run_def scenario_reinsert_a)
  note T1 = deleted_id_needs_reinsertion[OF r scenario_delete_a r1 scenario_search_deleted]
  note T2 = deleted_id_needs_reinsertion[OF r scenario_delete_a r2 scenario_search_reinserted]
  have later: "\<forall>ds u. Add ds u \<in> set [Add [recC] True] \<longrightarrow> ''a'' \<notin> data_id ` set ds"
    by (simp add: recC_def)
  have nc: "''a'' \<notin> data_id ` set [recC]" by (simp add: recC_def)
  have no: "Some ''a'' \<notin> hit_id ` set [\<lparr>hit_id = Some ''b'', distance = 9 / 10 :: rat,
                                   hit_embedding = [0, 1, 0]\<rparr>]"
    by (rule T1[THEN conjunct2, THEN conjunct2, THEN conjunct2, THEN mp, OF later])
  have yes: "Some ''a'' \<in> hit_id ` set [\<lparr>hit_id = Some ''a'', distance = 1 / 10 :: rat,
                                   hit_embedding = [1, 0, 0]\<rparr>]" by simp
  note C = T2[THEN conjunct2, THEN conjunct2, THEN conjunct1, THEN mp, OF yes]
  show ?thesis
    apply (intro conjI)
    subgoal by (rule r)
    subgoal by (rule scenario_delete_a)
    subgoal by (rule r1)
    subgoal by (rule scenario_search_deleted)
    subgoal by (rule T1[THEN conjunct1])
    subgoal by (rule T1[THEN conjunct2, THEN conjunct1])
    subgoal by (rule nc)
    subgoal by (rule no)
    subgoal by (rule r2)
    subgoal by (rule scenario_search_reinserted)
    subgoal by (rule yes)
    subgoal by (rule C[THEN conjunct1])
    subgoal by (rule C[THEN conjunct2])
    done
qed

text \<open>
  The claim as first stated fails: once \<open>a\<close> is inserted again after its deletion, a search
  returns \<open>a\<close>.
\<close>

theorem deleted_id_counterexample:
  "delete [''a''] scenarioIndex scenarioWorld = (None, scenarioDeleted, scenarioDeletedWorld) \<and>
   add [recA] False scenarioDeleted scenarioDeletedWorld
     = (None, scenarioReinserted, scenarioReinsertedWorld) \<and>
   search innerDistance scenarioReinserted query0 1 [] =
     Inr [\<lparr>hit_id = Some ''a'', distance = 1 / 10, hit_embedding = [1, 0, 0]\<rparr>]"
  using scenario_delete_a scenario_reinsert_a scenario_search_reinserted by (intro conjI)

subsection \<open>The bound on the requested count\<close>

lemma searchKnn_Inl: "searchKnn distFn q k f h = Inl e \<Longrightarrow> e = HnswError"
  by (auto simp: searchKnn_def split: if_splits)

text \<open>
  Claim C4, as amended. \<open>search\<close> fails with RequestedCountExceedsAvailable exactly when
  the index exists, the query has the dimensionality of the index, the metadata is present
  and \<open>k\<close> exceeds the cumulative counter \<open>elements\<close>. The id filter plays no part in the
  check, and after deletions the bound is still the cumulative counter, not the number of
  live elements.
\<close>

theorem search_count_check:
  "search distFn s q k ids = Inl RequestedCountExceedsAvailable \<longleftrightarrow>
     (\<exists>h m. index s = Some h \<and> length q = getNumDimensions h \<and> indexMetadata s = Some m \<and>
            elements m < k)"
proof
  assume a: "search distFn s q k ids = Inl RequestedCountExceedsAvailable"
  show "\<exists>h m. index s = Some h \<and> length q = getNumDimensions h \<and> indexMetadata s = Some m \<and>
            elements m < k"
  proof (cases "index s")
    case None
    with a show ?thesis by (simp add: search_def)
  next
    case (Some h)
    note h = this
    show ?thesis
    proof (cases "length q = getNumDimensions h")
      case False
      with a h show ?thesis by (simp add: search_def)
    next
      case True
      show ?thesis
      proof (cases "indexMetadata s")
        case None
        with a h True show ?thesis by (simp add: search_def)
      next
        case (Some m)
        show ?thesis
        proof (cases "elements m < k")
          case True
          with h Some \<open>length q = getNumDimensions h\<close> show ?thesis by simp
        next
          case False
          with a h Some \<open>length q = getNumDimensions h\<close> show ?thesis
            by (auto simp: search_def Let_def split: sum.splits dest: searchKnn_Inl mkHits_Inl)
        qed
      qed
    qed
  qed
next
  assume "\<exists>h m. index s = Some h \<and> length q = getNumDimensions h \<and> indexMetadata s = Some m \<and>
            elements m < k"
  then show "search distFn s q k ids = Inl RequestedCountExceedsAvailable"
    by (auto simp: search_def)
qed

theorem search_count_check_witness:
  "search innerDistance scenarioDeleted query0 4 [''b''] = Inl RequestedCountExceedsAvailable \<and>
   (\<exists>h m. index scenarioDeleted = Some h \<and> length query0 = getNumDimensions h \<and>
          indexMetadata scenarioDeleted = Some m \<and> elements m < 4)"
  using search_count_check[of innerDistance scenarioDeleted query0 4 "[''b'']"]
  by (simp add: scenario_defs scenarioDeleted_def getNumDimensions_def)

text \<open>
  The claim as first stated fails: after \<open>delete(["a"])\<close> two elements are live, and a
  search for three neighbours does not fail but returns the two.
\<close>

theorem search_count_counterexample:
  "liveCount scenarioDeleted = 2 \<and> counter scenarioDeleted = 3 \<and>
   search innerDistance scenarioDeleted query0 3 [] =
     Inr [\<lparr>hit_id = Some ''b'', distance = 9 / 10, hit_embedding = [0, 1, 0]\<rparr>,
          \<lparr>hit_id = Some ''c'', distance = 1, hit_embedding = [0, 0, 1]\<rparr>]"
  by (simp add: scenario_defs scenarioDeleted_def hnsw_defs index_defs liveCount_def counter_def)

subsection \<open>Searching with an id filter\<close>

lemma candidates_props:
  "p \<in> set (candidates f h) \<Longrightarrow>
     p \<in> set (hnsw_points h) \<and> fst p \<notin> hnsw_deleted h \<and> (\<forall>g. f = Some g \<longrightarrow> g (fst p))"
  by (auto simp: candidates_def)











subsection \<open>What the phases of \<open>add\<close> leave unchanged\<close>



subsection \<open>A vector of the wrong length\<close>

text \<open>
  Claim C6, as amended. When the vector of the first record of a batch has not the
  dimensionality of the index, \<open>add\<close> fails with DimensionMismatch. If the index was
  already initialised, nothing is mutated: index object and file system are as before. If
  it was not, the failed call has first initialised it: the maps are unchanged and the
  counter is 0, but the empty underlying index now exists and its snapshot has been
  written. (Vectors after the first are not compared with the dimensionality.)
\<close>

theorem add_wrong_dimension:
  "(index s = Some h \<and> length (embedding d0) \<noteq> getNumDimensions h \<longrightarrow>
      add (d0 # rest) update s w = (Some DimensionMismatch, s, w)) \<and>
   (index s = None \<and> length (embedding d0) \<noteq> numberOfDimensions (indexConfig s) \<longrightarrow>
      (\<exists>s' w'. add (d0 # rest) update s w = (Some DimensionMismatch, s', w') \<and>
         idToLabel s' = idToLabel s \<and> labelToId s' = labelToId s \<and> counter s' = 0 \<and>
         index s' \<noteq> None \<and> files w' (indexSavePath s') = index s'))"
proof (intro conjI impI)
  assume "index s = Some h \<and> length (embedding d0) \<noteq> getNumDimensions h"
  then show "add (d0 # rest) update s w = (Some DimensionMismatch, s, w)"
    by (simp add: add_def)
next
  assume a: "index s = None \<and> length (embedding d0) \<noteq> numberOfDimensions (indexConfig s)"
  obtain e1 s1 w1 where i: "initIndex s w = (e1, s1, w1)" by (metis prod_cases3)
  note P = initIndex_result[OF i]
  from P obtain h1 where h1: "index s1 = Some h1" "hnsw_dim h1 = numberOfDimensions (indexConfig s)"
    by blast
  have f: "files w1 (indexSavePath s1) = index s1"
    using i by (auto simp: initIndex_def save_def Let_def split: if_splits)
  have "add (d0 # rest) update s w = (Some DimensionMismatch, s1, w1)"
    using a i P h1 by (simp add: add_def getNumDimensions_def)
  with P h1 f show "\<exists>s' w'. add (d0 # rest) update s w = (Some DimensionMismatch, s', w') \<and>
         idToLabel s' = idToLabel s \<and> labelToId s' = labelToId s \<and> counter s' = 0 \<and>
         index s' \<noteq> None \<and> files w' (indexSavePath s') = index s'"
    by simp
qed

theorem add_wrong_dimension_witness:
  "index scenarioIndex = Some scenarioHnsw \<and>
   length (embedding recShort) \<noteq> getNumDimensions scenarioHnsw \<and>
   add [recShort, recD] False scenarioIndex scenarioWorld
     = (Some DimensionMismatch, scenarioIndex, scenarioWorld) \<and>
   index (newDbIndex docsConfig emptyWorld) = None \<and>
   length (embedding recShort) \<noteq> numberOfDimensions (indexConfig (newDbIndex docsConfig emptyWorld)) \<and>
   (\<exists>s' w'. add [recShort, recD] False (newDbIndex docsConfig emptyWorld) emptyWorld
               = (Some DimensionMismatch, s', w') \<and>
            counter s' = 0 \<and> index s' \<noteq> None)"
proof -
  have a: "index scenarioIndex = Some scenarioHnsw \<and>
           length (embedding recShort) \<noteq> getNumDimensions scenarioHnsw"
    by (simp add: scenario_defs recShort_def getNumDimensions_def)
  have b: "index (newDbIndex docsConfig emptyWorld) = None \<and>
           length (embedding recShort) \<noteq> numberOfDimensions (indexConfig (newDbIndex docsConfig emptyWorld))"
    by (simp add: scenario_defs recShort_def newDbIndex_def load_def indexSavePath_def
        validateIndexConfig_def)
  from add_wrong_dimension[of scenarioIndex scenarioHnsw recShort "[recD]" False scenarioWorld] a
  have c: "add [recShort, recD] False scenarioIndex scenarioWorld
     = (Some DimensionMismatch, scenarioIndex, scenarioWorld)" by blast
  from add_wrong_dimension[of "newDbIndex docsConfig emptyWorld" scenarioHnsw recShort "[recD]" False emptyWorld] b
  have d: "\<exists>s' w'. add [recShort, recD] False (newDbIndex docsConfig emptyWorld) emptyWorld
               = (Some DimensionMismatch, s', w') \<and>
            counter s' = 0 \<and> index s' \<noteq> None" by blast
  show ?thesis using a b c d by blast
qed

text \<open>
  The claim as first stated fails twice. On a new index the failed call creates the
  underlying index and writes its snapshot. And a batch whose second vector is too short
  passes the check: both records get labels, the counter goes from 3 to 5, and the call
  fails only when the underlying structure rejects the second vector.
\<close>

theorem add_wrong_dimension_counterexample:
  "index (newDbIndex docsConfig emptyWorld) = None \<and>
   files emptyWorld ''data/index/index_docs.bin'' = None \<and>
   fst (add [recShort] False (newDbIndex docsConfig emptyWorld) emptyWorld) = Some DimensionMismatch \<and>
   index (fst (snd (add [recShort] False (newDbIndex docsConfig emptyWorld) emptyWorld)))
     = Some (hnsw_new 3 1000) \<and>
   files (snd (snd (add [recShort] False (newDbIndex docsConfig emptyWorld) emptyWorld)))
     ''data/index/index_docs.bin'' = Some (hnsw_new 3 1000) \<and>
   counter scenarioIndex = 3 \<and> idToLabel scenarioIndex ''d'' = None \<and>
   fst (add [recD, recShort] False scenarioIndex scenarioWorld) = Some HnswError \<and>
   counter (fst (snd (add [recD, recShort] False scenarioIndex scenarioWorld))) = 5 \<and>
   idToLabel (fst (snd (add [recD, recShort] False scenarioIndex scenarioWorld))) ''d'' = Some 4"
  by (simp add: scenario_defs recD_def recShort_def hnsw_defs index_defs counter_def)

subsection \<open>Growth of the capacity\<close>










subsection \<open>Labels are never reused\<close>










subsection \<open>Persist and reload\<close>

text \<open>
  Claim C2 fails on the code. The constructor calls \<open>load\<close> before \<open>_saveFolder\<close> is
  assigned (only \<open>initIndex\<close> assigns it), so \<open>load\<close> looks for the snapshot under
  \<open>undefined/index_docs.bin\<close> while \<open>save\<close> wrote it to \<open>data/index/index_docs.bin\<close>: the
  index constructed afresh has no underlying index and the query that returned \<open>a\<close> now
  fails. Were the snapshot at the path that \<open>load\<close> reads, the query would still fail:
  the metadata and the two maps are not part of the snapshot.
\<close>

theorem reload_loses_index:
  "add [recA, recB, recC] False (newDbIndex docsConfig emptyWorld) emptyWorld
     = (None, scenarioIndex, scenarioWorld) \<and>
   files scenarioWorld ''data/index/index_docs.bin'' = Some scenarioHnsw \<and>
   search innerDistance scenarioIndex query0 1 [] =
     Inr [\<lparr>hit_id = Some ''a'', distance = 1 / 10, hit_embedding = [1, 0, 0]\<rparr>] \<and>
   index (newDbIndex docsConfig scenarioWorld) = None \<and>
   search innerDistance (newDbIndex docsConfig scenarioWorld) query0 1 [] = Inl IndexNotCreated \<and>
   index (newDbIndex docsConfig
            (scenarioWorld\<lparr>files := [''undefined/index_docs.bin'' \<mapsto> scenarioHnsw]\<rparr>))
     = Some scenarioHnsw \<and>
   search innerDistance
     (newDbIndex docsConfig
        (scenarioWorld\<lparr>files := [''undefined/index_docs.bin'' \<mapsto> scenarioHnsw]\<rparr>))
     query0 1 [] = Inl TypeError"
proof -
  have a: "files scenarioWorld ''data/index/index_docs.bin'' = Some scenarioHnsw"
    by (simp add: scenarioWorld_def)
  have b: "search innerDistance scenarioIndex query0 1 [] =
     Inr [\<lparr>hit_id = Some ''a'', distance = 1 / 10, hit_embedding = [1, 0, 0]\<rparr>]"
    by (simp add: scenario_defs hnsw_defs index_defs)
  have c: "index (newDbIndex docsConfig scenarioWorld) = None"
    by (simp add: scenario_defs hnsw_defs index_defs)
  have d: "search innerDistance (newDbIndex docsConfig scenarioWorld) query0 1 [] = Inl IndexNotCreated"
    using c by (simp add: search_def)
  have e: "index (newDbIndex docsConfig
            (scenarioWorld\<lparr>files := [''undefined/index_docs.bin'' \<mapsto> scenarioHnsw]\<rparr>))
     = Some scenarioHnsw"
    by (simp add: scenario_defs hnsw_defs index_defs)
  have f: "search innerDistance
     (newDbIndex docsConfig
        (scenarioWorld\<lparr>files := [''undefined/index_docs.bin'' \<mapsto> scenarioHnsw]\<rparr>))
     query0 1 [] = Inl TypeError"
    by (simp add: scenario_defs hnsw_defs index_defs)
  show ?thesis using scenario_add a b c d e f by simp
qed

section \<open>Properties of the coordinator\<close>

lemmas db_defs = newSqliteDb_def setupCollectionsTable_def setupEmbeddingsTable_def whereFirst_def
  getCollectionById_def getCollectionByName_def getEmbeddingById_def insertOnFactory_def
  createIndexForCollection_def createCollection_def freshDatabase_def freshDb_def docsMetadata_def

lemma createCollection_stores_nothing:
  "snd (createCollection name metadata getOrCreate freshId db w) = db"
  by (simp add: createCollection_def insertOnFactory_def Let_def split: sum.splits option.splits)

lemma createCollection_returns:
  "fst (createCollection name metadata getOrCreate freshId db w) = Inr row
     \<longleftrightarrow> getOrCreate \<and> (\<exists>rows. collections db = Some rows \<and> find (\<lambda>r. col_id r = name) rows = Some row)"
  by (auto simp: createCollection_def insertOnFactory_def getCollectionByName_def whereFirst_def
      Let_def split: sum.splits option.splits)

text \<open>
  Claim C3 fails on the code. A \<open>SqliteDb\<close> constructed over a new database has no table
  \<open>collections\<close>, because the statement that should create it is malformed: the lookup by
  name, the first statement of \<open>createCollection\<close>, fails, on the first call and on the
  second, with \<open>getOrCreate\<close> false or true, and nothing is stored. The second call
  neither fails with AlreadyExists nor returns the first collection. (On any database,
  \<open>createCollection\<close> stores no row, and it returns a collection only when a row has the
  requested name as its id: the two lemmas above.)
\<close>

theorem createCollection_twice:
  "snd (createCollection name metadata getOrCreate freshId db w) = db \<and>
   collections freshDb = None \<and>
   createCollection ''docs'' docsMetadata False ''id1'' freshDb emptyWorld
     = (Inl NoSuchTable, freshDb) \<and>
   createCollection ''docs'' docsMetadata False ''id2''
       (snd (createCollection ''docs'' docsMetadata False ''id1'' freshDb emptyWorld)) emptyWorld
     = (Inl NoSuchTable, freshDb) \<and>
   createCollection ''docs'' docsMetadata True ''id2''
       (snd (createCollection ''docs'' docsMetadata False ''id1'' freshDb emptyWorld)) emptyWorld
     = (Inl NoSuchTable, freshDb)"
  by (simp add: createCollection_stores_nothing) (simp add: db_defs)




end
